theory Spec2Isabelle
  imports Complex_Main
begin

section \<open>The MemeTracker workload synthesizer (dataset/preprocessing/memetracker\_convert.py)\<close>

text \<open>
  The script reads the MemeTracker quote files line by line, keeps the lines whose first
  field is \<open>L\<close> or \<open>P\<close>, pads the second field with \<open>/\<close> to a fixed width, writes the first
  \<open>INIT_KEYS\<close> of these keys to a load file and turns the keys after them into operations
  that it deals out to \<open>NUM_THREADS\<close> worker files, once for workload D and once for
  workload E.  The embedding below follows the script statement by statement.  The four
  module constants are the fields of a configuration record, the contents of the input
  files are a parameter, and the state of Python's \<open>random\<close> module is a parameter too.
  The check of the command line (lines 4--8) and the names of the files are left out.
\<close>

subsection \<open>Configuration (lines 18--21)\<close>

record config =
  NUM_THREADS :: nat
  INIT_KEYS :: nat
  PER_THREAD_KEYS :: nat
  KEY_LENGTH :: nat

definition script_config :: config where
  "script_config =
     \<lparr>NUM_THREADS = 16, INIT_KEYS = 10000000, PER_THREAD_KEYS = 40000000, KEY_LENGTH = 128\<rparr>"

subsection \<open>The random module\<close>

text \<open>
  The generator is the sequence of raw values it is going to deliver; drawing takes the
  head and leaves the rest.  \<open>random.random()\<close> delivers a multiple of \<open>2\<^sup>-\<^sup>5\<^sup>3\<close> in
  \<open>[0, 1)\<close>; \<open>random.randrange(0, n)\<close> delivers a number below \<open>n\<close> and raises
  \<open>ValueError\<close> when \<open>n = 0\<close>.  Every sequence of results the two calls can deliver is the
  image of some such sequence.  The script never seeds the generator.

  The fraction is kept as an exact number.  The script compares it with the double
  \<open>0.9\<close>, which is \<open>8106479329266893 / 2\<^sup>5\<^sup>3\<close>; on the multiples of \<open>2\<^sup>-\<^sup>5\<^sup>3\<close> that
  comparison and the comparison with \<open>9 / 10\<close> agree, since \<open>0.9 * 2\<^sup>5\<^sup>3\<close> lies strictly
  between \<open>8106479329266892\<close> and \<open>8106479329266893\<close>.
\<close>

type_synonym rng = "nat \<Rightarrow> nat"

datatype error = ValueError | IndexError

definition rng_rest :: "rng \<Rightarrow> rng" where
  "rng_rest g = (\<lambda>i. g (Suc i))"

definition random_random :: "rng \<Rightarrow> real \<times> rng" where
  "random_random g = (real (g 0 mod 2 ^ 53) / 2 ^ 53, rng_rest g)"

definition random_randrange :: "nat \<Rightarrow> rng \<Rightarrow> error + nat \<times> rng" where
  "random_randrange n g = (if n = 0 then Inl ValueError else Inr (g 0 mod n, rng_rest g))"

subsection \<open>Program state and file effects\<close>

text \<open>
  \<open>current_state\<close> is the string \<open>"load"\<close> or \<open>"thread"\<close>.  The open files are written
  through \<open>write\<close> and \<open>close\<close> only, so their contents are the write events of the run, in
  order: the field \<open>io\<close> is that event log, and a file's contents are the texts written
  to it.
\<close>

datatype workload = WorkloadD | WorkloadE

datatype phase = Load | Thread

datatype target = LoadFile | WorkerFile nat

datatype io_event = Write target string | Close target

record synth_state =
  current_state :: phase
  counter :: nat
  current_thread :: nat
  key_buffer :: "string list"
  inserted_keys :: "string list"
  io :: "io_event list"
  rng :: rng

definition init_state :: "rng \<Rightarrow> synth_state" where
  "init_state g =
     \<lparr>current_state = Load, counter = 0, current_thread = 0, key_buffer = [],
      inserted_keys = [], io = [], rng = g\<rparr>"

definition newline :: string where
  "newline = [CHR 0x0A]"

fun written :: "target \<Rightarrow> io_event list \<Rightarrow> string list" where
  "written t [] = []"
| "written t (Write t' x # evs) = (if t' = t then x # written t evs else written t evs)"
| "written t (Close t' # evs) = written t evs"

definition load_file :: "synth_state \<Rightarrow> string list" where
  "load_file s = written LoadFile (io s)"

definition worker_file :: "nat \<Rightarrow> synth_state \<Rightarrow> string list" where
  "worker_file i s = written (WorkerFile i) (io s)"

text \<open>The worker writes of a log in the order they happened: file index and text.\<close>

fun worker_writes :: "io_event list \<Rightarrow> (nat \<times> string) list" where
  "worker_writes [] = []"
| "worker_writes (Write (WorkerFile i) x # evs) = (i, x) # worker_writes evs"
| "worker_writes (Write LoadFile x # evs) = worker_writes evs"
| "worker_writes (Close t # evs) = worker_writes evs"

subsection \<open>Record filter and key padding (lines 65--71)\<close>

text \<open>
  \<open>line.split()\<close> cuts a line at runs of white space and drops empty fields.  A
  character is a code point below 256.  The white space of \<open>str.split\<close> among these is
  the tab, line feed, vertical tab, form feed and carriage return, the four separators
  \<open>0x1C\<close> to \<open>0x1F\<close>, the space, the next-line character \<open>0x85\<close> and the no-break space
  \<open>0xA0\<close>.
\<close>

definition is_space :: "char \<Rightarrow> bool" where
  "is_space c =
     (c = CHR '' '' \<or> c = CHR 0x09 \<or> c = CHR 0x0A \<or> c = CHR 0x0B \<or> c = CHR 0x0C \<or>
      c = CHR 0x0D \<or> c = CHR 0x1C \<or> c = CHR 0x1D \<or> c = CHR 0x1E \<or> c = CHR 0x1F \<or>
      c = CHR 0x85 \<or> c = CHR 0xA0)"

fun split_from :: "string \<Rightarrow> string \<Rightarrow> string list" where
  "split_from cur [] = (if cur = [] then [] else [cur])"
| "split_from cur (c # cs) =
     (if is_space c then (if cur = [] then split_from [] cs else cur # split_from [] cs)
      else split_from (cur @ [c]) cs)"

definition str_split :: "string \<Rightarrow> string list" where
  "str_split line = split_from [] line"

text \<open>
  Lines 66--70: a line with fewer than two fields, or whose first field is neither \<open>L\<close>
  nor \<open>P\<close>, is skipped (\<open>continue\<close>); otherwise the second field is the key.
\<close>

definition raw_key :: "string \<Rightarrow> string option" where
  "raw_key line =
     (let fields = str_split line in
      if length fields < 2 then None
      else if fields ! 0 \<noteq> ''L'' \<and> fields ! 0 \<noteq> ''P'' then None
      else Some (fields ! 1))"

text \<open>
  Line 71: \<open>key + "/" * (KEY_LENGTH - len(key))\<close>.  Python's \<open>"/" * n\<close> is the empty string
  for \<open>n \<le> 0\<close>, which is what \<open>replicate\<close> gives with the truncating subtraction of
  \<open>nat\<close>.
\<close>

definition pad_key :: "nat \<Rightarrow> string \<Rightarrow> string" where
  "pad_key key_length key = key @ replicate (key_length - length key) CHR ''/''"

subsection \<open>generate\_op (lines 34--56)\<close>

type_synonym 'a result = "error \<times> synth_state + 'a \<times> synth_state"

text \<open>
  An exception leaves the state as it is at the raise, so the error is paired with it.
  \<open>key_buffer.pop(0)\<close> runs on a list of ten entries and is \<open>tl\<close>; the list reads are at
  an index that \<open>randrange\<close> has just drawn.
\<close>

definition list_get :: "string list \<Rightarrow> nat \<Rightarrow> synth_state \<Rightarrow> string result" where
  "list_get xs i s = (if i < length xs then Inr (xs ! i, s) else Inl (IndexError, s))"

definition generate_op :: "workload \<Rightarrow> string \<Rightarrow> synth_state \<Rightarrow> (string \<times> string) result" where
  "generate_op wl current_key s =
     (case wl of
        WorkloadD \<Rightarrow>
          (let (random_num, g1) = random_random (rng s); s1 = s\<lparr>rng := g1\<rparr> in
           if random_num < 9 / 10 then
             if length (key_buffer s1) = 0 then Inr ((''r'', current_key), s1)
             else
               (case random_randrange (length (key_buffer s1)) g1 of
                  Inl e \<Rightarrow> Inl (e, s1)
                | Inr (random_int, g2) \<Rightarrow>
                    (case list_get (key_buffer s1) random_int (s1\<lparr>rng := g2\<rparr>) of
                       Inl e \<Rightarrow> Inl e
                     | Inr (k, s2) \<Rightarrow> Inr ((''r'', k), s2)))
           else
             let s2 = (if length (key_buffer s1) = 10
                       then s1\<lparr>key_buffer := tl (key_buffer s1)\<rparr> else s1);
                 s3 = s2\<lparr>key_buffer := key_buffer s2 @ [current_key]\<rparr>
             in Inr ((''i'', current_key), s3))
      | WorkloadE \<Rightarrow>
          (let (random_num, g1) = random_random (rng s); s1 = s\<lparr>rng := g1\<rparr> in
           if random_num < 9 / 10 then
             (case random_randrange (length (inserted_keys s1)) g1 of
                Inl e \<Rightarrow> Inl (e, s1)
              | Inr (random_int, g2) \<Rightarrow>
                  (case list_get (inserted_keys s1) random_int (s1\<lparr>rng := g2\<rparr>) of
                     Inl e \<Rightarrow> Inl e
                   | Inr (k, s2) \<Rightarrow> Inr ((''s'', k), s2)))
           else
             Inr ((''i'', current_key),
                  s1\<lparr>inserted_keys := inserted_keys s1 @ [current_key]\<rparr>)))"

subsection \<open>The body of the read loop (lines 65--91)\<close>

datatype ctl = Continue | Break

text \<open>
  \<open>worker_files\<close> has \<open>NUM_THREADS\<close> entries, so \<open>worker_files[current_thread]\<close> raises
  \<open>IndexError\<close> from \<open>NUM_THREADS\<close> on.  \<open>PER_THREAD_KEYS - 1\<close> is an integer
  subtraction.
\<close>

definition load_branch :: "config \<Rightarrow> string \<Rightarrow> synth_state \<Rightarrow> ctl result" where
  "load_branch cfg key s =
     (let s1 = s\<lparr>counter := counter s + 1\<rparr> in
      if counter s1 = INIT_KEYS cfg + 1
      then Inr (Continue,
                s1\<lparr>counter := 0, current_state := Thread, io := io s1 @ [Close LoadFile]\<rparr>)
      else Inr (Continue,
                s1\<lparr>inserted_keys := inserted_keys s1 @ [key],
                   io := io s1 @ [Write LoadFile (key @ newline)]\<rparr>))"

definition emit_op :: "config \<Rightarrow> workload \<Rightarrow> string \<Rightarrow> synth_state \<Rightarrow> ctl result" where
  "emit_op cfg wl key s =
     (case generate_op wl key s of
        Inl e \<Rightarrow> Inl e
      | Inr ((op, query_key), s1) \<Rightarrow>
          if current_thread s1 < NUM_THREADS cfg
          then Inr (Continue,
                    s1\<lparr>io := io s1 @ [Write (WorkerFile (current_thread s1))
                                         (op @ '' '' @ query_key @ newline)],
                       current_thread := current_thread s1 + 1\<rparr>)
          else Inl (IndexError, s1))"

definition thread_branch :: "config \<Rightarrow> workload \<Rightarrow> string \<Rightarrow> synth_state \<Rightarrow> ctl result" where
  "thread_branch cfg wl key s =
     (if current_thread s = NUM_THREADS cfg
      then
        (let s1 = s\<lparr>current_thread := 0, counter := counter s + 1\<rparr> in
         if int (counter s1) \<ge> int (PER_THREAD_KEYS cfg) - 1 then Inr (Break, s1)
         else emit_op cfg wl key s1)
      else emit_op cfg wl key s)"

definition process_line :: "config \<Rightarrow> workload \<Rightarrow> string \<Rightarrow> synth_state \<Rightarrow> ctl result" where
  "process_line cfg wl line s =
     (case raw_key line of
        None \<Rightarrow> Inr (Continue, s)
      | Some key0 \<Rightarrow>
          (let key = pad_key (KEY_LENGTH cfg) key0 in
           case current_state s of
             Load \<Rightarrow> load_branch cfg key s
           | Thread \<Rightarrow> thread_branch cfg wl key s))"

subsection \<open>The loops (lines 58--63, 93--94) and the two workloads (line 23)\<close>

text \<open>
  A file is the list of the lines \<open>readline\<close> returns before the end of the file; the
  empty string it returns there is the empty list here.  \<open>break\<close> leaves the \<open>while\<close>
  loop of the current file, and the \<open>for\<close> loop goes on with the next file.
\<close>

type_synonym outcome = "error \<times> synth_state + synth_state"

fun read_file :: "config \<Rightarrow> workload \<Rightarrow> string list \<Rightarrow> synth_state \<Rightarrow> outcome" where
  "read_file cfg wl [] s = Inr s"
| "read_file cfg wl (line # rest) s =
     (case process_line cfg wl line s of
        Inl e \<Rightarrow> Inl e
      | Inr (Break, s1) \<Rightarrow> Inr s1
      | Inr (Continue, s1) \<Rightarrow> read_file cfg wl rest s1)"

fun read_files :: "config \<Rightarrow> workload \<Rightarrow> string list list \<Rightarrow> synth_state \<Rightarrow> outcome" where
  "read_files cfg wl [] s = Inr s"
| "read_files cfg wl (f # fs) s =
     (case read_file cfg wl f s of
        Inl e \<Rightarrow> Inl e
      | Inr s1 \<Rightarrow> read_files cfg wl fs s1)"

definition close_workers :: "config \<Rightarrow> synth_state \<Rightarrow> synth_state" where
  "close_workers cfg s = s\<lparr>io := io s @ map (\<lambda>i. Close (WorkerFile i)) [0..<NUM_THREADS cfg]\<rparr>"

definition run_workload :: "config \<Rightarrow> workload \<Rightarrow> string list list \<Rightarrow> rng \<Rightarrow> outcome" where
  "run_workload cfg wl file_list g =
     (case read_files cfg wl file_list (init_state g) of
        Inl e \<Rightarrow> Inl e
      | Inr s \<Rightarrow> Inr (close_workers cfg s))"

text \<open>The state a run ends in, whether it returned or raised.\<close>

definition final :: "outcome \<Rightarrow> synth_state" where
  "final out = (case out of Inl (e, s) \<Rightarrow> s | Inr s \<Rightarrow> s)"

text \<open>
  The script runs workload D and then workload E over the same files, each with fresh
  counters, buffers and output files; the generator goes on from where workload D left
  it.  An exception in workload D ends the script before workload E starts.
\<close>

definition main :: "config \<Rightarrow> string list list \<Rightarrow> rng \<Rightarrow> outcome \<times> outcome option" where
  "main cfg file_list g =
     (let outD = run_workload cfg WorkloadD file_list g in
      case outD of
        Inl e \<Rightarrow> (outD, None)
      | Inr sD \<Rightarrow> (outD, Some (run_workload cfg WorkloadE file_list (rng sD))))"

subsection \<open>Notions used in the statements\<close>

text \<open>The state a step of the loop body leaves behind, whether it returned or raised.\<close>

definition rstate :: "'a result \<Rightarrow> synth_state" where
  "rstate r = (case r of Inl (e, s) \<Rightarrow> s | Inr (x, s) \<Rightarrow> s)"

text \<open>
  The states a run of one workload passes through between two lines: the initial
  state, and the state the loop body leaves after one more line, whether it returned or
  raised.  (A run stops at a raise; the relation goes on from there as well, so it holds
  of every state of a run and of some more.)
\<close>

inductive reachable :: "config \<Rightarrow> workload \<Rightarrow> synth_state \<Rightarrow> bool"
  for cfg :: config and wl :: workload where
  reachable_init: "reachable cfg wl (init_state g)"
| reachable_step: "reachable cfg wl s \<Longrightarrow> reachable cfg wl (rstate (process_line cfg wl line s))"

text \<open>The padded keys of the accepted lines of a list of lines, in order.\<close>

definition accepted_keys :: "config \<Rightarrow> string list \<Rightarrow> string list" where
  "accepted_keys cfg lines = map (pad_key (KEY_LENGTH cfg)) (List.map_filter raw_key lines)"

text \<open>
  A key has been inserted in a log when the log holds its line in the load file or an
  \<open>i\<close> operation on it in a worker file.
\<close>

definition inserted_in :: "string \<Rightarrow> io_event list \<Rightarrow> bool" where
  "inserted_in k evs =
     (Write LoadFile (k @ newline) \<in> set evs \<or>
      (\<exists>j. Write (WorkerFile j) (''i'' @ '' '' @ k @ newline) \<in> set evs))"

subsection \<open>Concrete configurations and inputs\<close>

text \<open>
  The scenario of the specification: two load keys, keys of width five, two worker
  files; the per-thread target is the script's.
\<close>

definition scenario_config :: config where
  "scenario_config =
     \<lparr>NUM_THREADS = 2, INIT_KEYS = 2, PER_THREAD_KEYS = 40000000, KEY_LENGTH = 5\<rparr>"

definition scenario_lines :: "string list" where
  "scenario_lines =
     [''L keyA\<newline>'', ''X ignored\<newline>'', ''P keyB\<newline>'', ''L keyC\<newline>'']"


subsection \<open>Invariants used in the proofs\<close>

text \<open>
  Round robin: the thread cursor never passes \<open>NUM_THREADS\<close>, it agrees with the number
  of worker writes so far modulo \<open>NUM_THREADS\<close>, and the worker writes so far went to
  the files \<open>0, 1, \<dots>\<close> in turn.
\<close>

definition rr_inv :: "config \<Rightarrow> synth_state \<Rightarrow> bool" where
  "rr_inv cfg s =
     (current_thread s \<le> NUM_THREADS cfg \<and>
      length (worker_writes (io s)) mod NUM_THREADS cfg = current_thread s mod NUM_THREADS cfg \<and>
      map fst (worker_writes (io s)) =
        map (\<lambda>k. k mod NUM_THREADS cfg) [0..<length (worker_writes (io s))])"

text \<open>
  The load file is closed exactly when the phase is \<open>Thread\<close>, and from its \<open>close\<close> on
  the log holds no write to it.
\<close>

definition close_inv :: "synth_state \<Rightarrow> bool" where
  "close_inv s =
     (if current_state s = Load then Close LoadFile \<notin> set (io s)
      else Close LoadFile \<in> set (io s) \<and>
           written LoadFile (dropWhile (\<lambda>e. e \<noteq> Close LoadFile) (io s)) = [])"

text \<open>
  Scans: every \<open>s\<close> operation in a log is on a key inserted earlier in the log, and
  every key of \<open>inserted_keys\<close> has been inserted in the log.
\<close>

definition scans_ok :: "io_event list \<Rightarrow> bool" where
  "scans_ok evs =
     (\<forall>pre j k post. evs = pre @ Write (WorkerFile j) (''s'' @ '' '' @ k @ newline) # post \<longrightarrow>
        inserted_in k pre)"

definition scan_inv :: "synth_state \<Rightarrow> bool" where
  "scan_inv s = ((\<forall>k \<in> set (inserted_keys s). inserted_in k (io s)) \<and> scans_ok (io s))"

text \<open>
  In the load phase \<open>inserted_keys\<close> holds at least \<open>counter\<close> keys, and in the thread
  phase at least \<open>INIT_KEYS\<close>.
\<close>

definition ik_inv :: "config \<Rightarrow> synth_state \<Rightarrow> bool" where
  "ik_inv cfg s =
     (if current_state s = Load then counter s \<le> length (inserted_keys s)
      else INIT_KEYS cfg \<le> length (inserted_keys s))"

subsection \<open>An input that runs past the operation bound\<close>

text \<open>
  One worker file, one load key, a per-thread target of two, and three input files.
\<close>

definition overrun_config :: config where
  "overrun_config = \<lparr>NUM_THREADS = 1, INIT_KEYS = 1, PER_THREAD_KEYS = 2, KEY_LENGTH = 2\<rparr>"

definition overrun_files :: "string list list" where
  "overrun_files =
     [[''L a\<newline>'', ''L b\<newline>'', ''L c\<newline>'', ''L d\<newline>''],
      [''L e\<newline>'', ''L f\<newline>''],
      [''L g\<newline>'']]"

subsection \<open>A run that fills the recent-key buffer\<close>

text \<open>
  No load keys, so the first accepted line switches the phase; the generator always
  delivers the largest fraction, so each of the ten lines after it is an insert.
\<close>

definition buffer_config :: config where
  "buffer_config = \<lparr>NUM_THREADS = 16, INIT_KEYS = 0, PER_THREAD_KEYS = 40000000, KEY_LENGTH = 2\<rparr>"

definition buffer_lines :: "string list" where
  "buffer_lines =
     [''L t\<newline>'', ''L a\<newline>'', ''L b\<newline>'', ''L c\<newline>'', ''L d\<newline>'', ''L e\<newline>'',
      ''L f\<newline>'', ''L g\<newline>'', ''L h\<newline>'', ''L i\<newline>'', ''L j\<newline>'']"

definition always_insert :: rng where
  "always_insert = (\<lambda>_. 2 ^ 53 - 1)"

section \<open>Basic facts\<close>

lemma written_append: "written t (xs @ ys) = written t xs @ written t ys"
  by (induction xs rule: written.induct) auto

lemma worker_writes_append: "worker_writes (xs @ ys) = worker_writes xs @ worker_writes ys"
  by (induction xs rule: worker_writes.induct) auto

lemma written_closes: "written t (map (\<lambda>i. Close (f i)) ns) = []"
  by (induction ns) auto

lemma worker_writes_closes: "worker_writes (map (\<lambda>i. Close (f i)) ns) = []"
  by (induction ns) auto

lemma draw_zero: "random_random (\<lambda>_. 0) = (0, \<lambda>_. 0)"
  by (simp add: random_random_def rng_rest_def)

lemma generate_op_frame:
  "io (rstate (generate_op wl k s)) = io s \<and>
   current_state (rstate (generate_op wl k s)) = current_state s \<and>
   counter (rstate (generate_op wl k s)) = counter s \<and>
   current_thread (rstate (generate_op wl k s)) = current_thread s"
  by (auto simp: generate_op_def rstate_def random_random_def random_randrange_def list_get_def Let_def
      split: workload.splits sum.splits prod.splits if_splits)

lemma reachable_read_file:
  "reachable cfg wl s \<Longrightarrow> reachable cfg wl (final (read_file cfg wl lines s))"
proof (induction lines arbitrary: s)
  case Nil
  then show ?case by (simp add: final_def)
next
  case (Cons line rest)
  have step: "reachable cfg wl (rstate (process_line cfg wl line s))"
    using Cons.prems by (rule reachable_step)
  show ?case
  proof (cases "process_line cfg wl line s")
    case (Inl e)
    with step show ?thesis by (cases e) (simp add: final_def rstate_def)
  next
    case (Inr r)
    obtain c s1 where r: "r = (c, s1)" by (cases r)
    with Inr step have s1: "reachable cfg wl s1" by (simp add: rstate_def)
    show ?thesis
    proof (cases c)
      case Continue
      with Inr r Cons.IH[OF s1] show ?thesis by simp
    next
      case Break
      with Inr r s1 show ?thesis by (simp add: final_def)
    qed
  qed
qed

lemma reachable_read_files:
  "reachable cfg wl s \<Longrightarrow> reachable cfg wl (final (read_files cfg wl fs s))"
proof (induction fs arbitrary: s)
  case Nil
  then show ?case by (simp add: final_def)
next
  case (Cons f fs)
  have f: "reachable cfg wl (final (read_file cfg wl f s))"
    using Cons.prems by (rule reachable_read_file)
  show ?case
  proof (cases "read_file cfg wl f s")
    case (Inl e)
    with f show ?thesis by (cases e) (simp add: final_def)
  next
    case (Inr s1)
    with f have "reachable cfg wl s1" by (simp add: final_def)
    from Cons.IH[OF this] Inr show ?thesis by simp
  qed
qed

lemma final_run_workload:
  "final (run_workload cfg wl fs g) =
     (case read_files cfg wl fs (init_state g) of
        Inl (e, s) \<Rightarrow> s | Inr s \<Rightarrow> close_workers cfg s)"
  by (simp add: run_workload_def final_def split: sum.splits prod.splits)

lemma final_run_workload_reachable:
  "\<exists>s. reachable cfg wl s \<and>
       (final (run_workload cfg wl fs g) = s \<or> final (run_workload cfg wl fs g) = close_workers cfg s)"
proof -
  let ?s0 = "final (read_files cfg wl fs (init_state g))"
  have r: "reachable cfg wl ?s0"
    by (rule reachable_read_files) (rule reachable_init)
  have "final (run_workload cfg wl fs g) = ?s0 \<or> final (run_workload cfg wl fs g) = close_workers cfg ?s0"
    by (simp add: final_run_workload) (simp add: final_def split: sum.splits prod.splits)
  with r show ?thesis by blast
qed

section \<open>Key padding\<close>

text \<open>
  C8.  A raw key that is not longer than \<open>KEY_LENGTH\<close> is padded to exactly
  \<open>KEY_LENGTH\<close> characters: the padded key starts with the raw key, and everything
  after the raw key is the filler character \<open>/\<close>.
\<close>

theorem pad_key_exact_width:
  "length key \<le> KEY_LENGTH cfg \<Longrightarrow>
     length (pad_key (KEY_LENGTH cfg) key) = KEY_LENGTH cfg \<and>
     take (length key) (pad_key (KEY_LENGTH cfg) key) = key \<and>
     drop (length key) (pad_key (KEY_LENGTH cfg) key) =
       replicate (KEY_LENGTH cfg - length key) CHR ''/''"
  by (simp add: pad_key_def)

theorem pad_key_exact_width_witness:
  "length ''keyA'' \<le> KEY_LENGTH scenario_config \<and>
   length (pad_key (KEY_LENGTH scenario_config) ''keyA'') = KEY_LENGTH scenario_config \<and>
   take (length ''keyA'') (pad_key (KEY_LENGTH scenario_config) ''keyA'') = ''keyA'' \<and>
   drop (length ''keyA'') (pad_key (KEY_LENGTH scenario_config) ''keyA'') =
     replicate (KEY_LENGTH scenario_config - length ''keyA'') CHR ''/''"
proof -
  have h: "length ''keyA'' \<le> KEY_LENGTH scenario_config"
    by (simp add: scenario_config_def)
  from pad_key_exact_width [OF h] h show ?thesis by blast
qed

section \<open>The steps of the loop body\<close>

lemma load_branch_eq:
  "load_branch cfg key s =
     (if counter s = INIT_KEYS cfg
      then Inr (Continue, s\<lparr>counter := 0, current_state := Thread, io := io s @ [Close LoadFile]\<rparr>)
      else Inr (Continue, s\<lparr>counter := counter s + 1, inserted_keys := inserted_keys s @ [key],
                            io := io s @ [Write LoadFile (key @ newline)]\<rparr>))"
  by (simp add: load_branch_def Let_def)

lemma thread_branch_eq:
  "thread_branch cfg wl key s =
     (if current_thread s = NUM_THREADS cfg
      then (if int (PER_THREAD_KEYS cfg) - 1 \<le> int (counter s) + 1
            then Inr (Break, s\<lparr>current_thread := 0, counter := counter s + 1\<rparr>)
            else emit_op cfg wl key (s\<lparr>current_thread := 0, counter := counter s + 1\<rparr>))
      else emit_op cfg wl key s)"
  by (simp add: thread_branch_def Let_def)

lemma process_line_skip: "raw_key line = None \<Longrightarrow> process_line cfg wl line s = Inr (Continue, s)"
  by (simp add: process_line_def)

lemma process_line_load:
  "raw_key line = Some key0 \<Longrightarrow> current_state s = Load \<Longrightarrow>
     process_line cfg wl line s = load_branch cfg (pad_key (KEY_LENGTH cfg) key0) s"
  by (simp add: process_line_def)

lemma process_line_thread:
  "raw_key line = Some key0 \<Longrightarrow> current_state s = Thread \<Longrightarrow>
     process_line cfg wl line s = thread_branch cfg wl (pad_key (KEY_LENGTH cfg) key0) s"
  by (simp add: process_line_def)

section \<open>The scenario of the specification\<close>

lemma raw_key_scenario:
  "raw_key ''L keyA\<newline>'' = Some ''keyA''"
  "raw_key ''X ignored\<newline>'' = None"
  "raw_key ''P keyB\<newline>'' = Some ''keyB''"
  "raw_key ''L keyC\<newline>'' = Some ''keyC''"
  "raw_key ''L keyD\<newline>'' = Some ''keyD''"
  by (simp_all add: raw_key_def str_split_def is_space_def)

lemma scenario_read:
  "read_file scenario_config wl scenario_lines (init_state g) =
     Inr \<lparr>current_state = Thread, counter = 0, current_thread = 0, key_buffer = [],
          inserted_keys = [''keyA/'', ''keyB/''],
          io = [Write LoadFile ''keyA/\<newline>'', Write LoadFile ''keyB/\<newline>'', Close LoadFile],
          rng = g\<rparr>"
  by (simp add: scenario_lines_def scenario_config_def init_state_def raw_key_scenario newline_def
      process_line_def pad_key_def load_branch_def)

text \<open>
  C1, as stated, fails.  In the scenario (records \<open>L keyA\<close>, \<open>X ignored\<close>, \<open>P keyB\<close>,
  \<open>L keyC\<close>; two load keys, width five, two worker files, workload D) the third accepted
  key \<open>keyC\<close> is the record on which the counter reaches \<open>INIT_KEYS + 1\<close>: the load
  branch switches the phase and does nothing else with the key, so worker file 0 holds no
  operation at the end of the run.
\<close>

theorem scenario_third_key_no_operation:
  "worker_file 0 (final (run_workload scenario_config WorkloadD [scenario_lines] (\<lambda>_. 0))) = []"
  by (simp add: run_workload_def scenario_read final_def close_workers_def worker_file_def
      written_append written_closes)

text \<open>
  C1, amended.  In the scenario the load file is exactly \<open>keyA/\<close>, \<open>keyB/\<close> (the \<open>X\<close>
  line is skipped), and the third accepted key \<open>keyC\<close> is consumed by the phase
  transition: it produces no operation and no worker file is written.  The first key of
  the thread phase is the fourth accepted key: when a further file with the record
  \<open>L keyD\<close> follows, that key produces exactly one operation, \<open>i keyD/\<close> or
  \<open>r keyD/\<close> depending on the drawn random fraction (the buffer is empty, so a read
  targets the key itself), written to worker file 0.  This holds for every generator.
\<close>

theorem scenario_load_file_and_transition:
  "load_file (final (run_workload scenario_config WorkloadD [scenario_lines] g)) =
     [''keyA/\<newline>'', ''keyB/\<newline>''] \<and>
   worker_writes (io (final (run_workload scenario_config WorkloadD [scenario_lines] g))) = [] \<and>
   (\<exists>op. (op = ''i'' \<or> op = ''r'') \<and>
      worker_writes (io (final (run_workload scenario_config WorkloadD
          [scenario_lines, [''L keyD\<newline>'']] g))) = [(0, op @ '' keyD/\<newline>'')])"
proof (intro conjI)
  show "load_file (final (run_workload scenario_config WorkloadD [scenario_lines] g)) =
     [''keyA/\<newline>'', ''keyB/\<newline>'']"
    by (simp add: run_workload_def scenario_read final_def close_workers_def load_file_def
      written_append written_closes)
  show "worker_writes (io (final (run_workload scenario_config WorkloadD [scenario_lines] g))) = []"
    by (simp add: run_workload_def scenario_read final_def close_workers_def
      worker_writes_append worker_writes_closes)
  show "\<exists>op. (op = ''i'' \<or> op = ''r'') \<and>
      worker_writes (io (final (run_workload scenario_config WorkloadD
          [scenario_lines, [''L keyD\<newline>'']] g))) = [(0, op @ '' keyD/\<newline>'')]"
  proof (cases "fst (random_random g) < 9 / 10")
    case True
    then have "worker_writes (io (final (run_workload scenario_config WorkloadD
          [scenario_lines, [''L keyD\<newline>'']] g))) = [(0, ''r'' @ '' keyD/\<newline>'')]"
     by (simp add: run_workload_def scenario_read)
        (simp add: final_def close_workers_def
      worker_writes_append worker_writes_closes raw_key_scenario process_line_def pad_key_def
      thread_branch_def emit_op_def generate_op_def scenario_config_def newline_def split_beta)
    then show ?thesis by blast
  next
    case False
    then have "worker_writes (io (final (run_workload scenario_config WorkloadD
          [scenario_lines, [''L keyD\<newline>'']] g))) = [(0, ''i'' @ '' keyD/\<newline>'')]"
     by (simp add: run_workload_def scenario_read)
        (simp add: final_def close_workers_def
      worker_writes_append worker_writes_closes raw_key_scenario process_line_def pad_key_def
      thread_branch_def emit_op_def generate_op_def scenario_config_def newline_def split_beta)
    then show ?thesis by blast
  qed
qed

section \<open>Round-robin thread assignment\<close>

lemma rr_inv_init: "rr_inv cfg (init_state g)"
  by (simp add: rr_inv_def init_state_def)

lemma rr_inv_emit_op:
  assumes "rr_inv cfg s"
  shows "rr_inv cfg (rstate (emit_op cfg wl key s))"
proof (cases "generate_op wl key s")
  case (Inl e)
  with generate_op_frame[of wl key s] assms show ?thesis
    by (cases e) (simp add: emit_op_def rstate_def rr_inv_def)
next
  case (Inr r)
  obtain op qk s1 where r: "r = ((op, qk), s1)" by (metis prod.exhaust)
  from generate_op_frame[of wl key s] Inr r
  have fr: "io s1 = io s" "current_thread s1 = current_thread s"
    by (simp_all add: rstate_def)
  show ?thesis
  proof (cases "current_thread s < NUM_THREADS cfg")
    case True
    with assms have "length (worker_writes (io s)) mod NUM_THREADS cfg = current_thread s"
      by (simp add: rr_inv_def)
    with True assms show ?thesis
      by (simp add: emit_op_def Inr r fr rstate_def rr_inv_def worker_writes_append mod_Suc)
  next
    case False
    with assms show ?thesis
      by (simp add: emit_op_def Inr r fr rstate_def rr_inv_def)
  qed
qed

lemma rr_inv_step:
  assumes "rr_inv cfg s"
  shows "rr_inv cfg (rstate (process_line cfg wl line s))"
proof (cases "raw_key line")
  case None
  with assms show ?thesis by (simp add: process_line_def rstate_def)
next
  case (Some key0)
  show ?thesis
  proof (cases "current_state s")
    case Load
    with Some assms show ?thesis
      by (simp add: process_line_load load_branch_eq rstate_def rr_inv_def worker_writes_append)
  next
    case Thread
    have reset: "rr_inv cfg (s\<lparr>current_thread := 0, counter := counter s + 1\<rparr>)"
      if "current_thread s = NUM_THREADS cfg"
      using assms that by (simp add: rr_inv_def)
    from Thread Some assms reset show ?thesis
      by (simp add: process_line_thread thread_branch_eq rr_inv_emit_op)
        (simp add: rstate_def)
  qed
qed

lemma rr_inv_reachable: "reachable cfg wl s \<Longrightarrow> rr_inv cfg s"
  by (induction rule: reachable.induct) (simp_all add: rr_inv_init rr_inv_step)

text \<open>
  C5.  In every run of a workload, whether it returns or raises, the worker writes taken
  in the order they happen go to the files \<open>0 mod N\<close>, \<open>1 mod N\<close>, \<open>2 mod N\<close>, \<dots> for
  \<open>N = NUM_THREADS\<close>: the \<open>k\<close>-th generated operation (counted from 0; operations are
  generated in the thread phase only) is written to worker file \<open>k mod N\<close>.
\<close>

theorem round_robin:
  "map fst (worker_writes (io (final (run_workload cfg wl file_list g)))) =
     map (\<lambda>k. k mod NUM_THREADS cfg)
       [0..<length (worker_writes (io (final (run_workload cfg wl file_list g))))]"
proof -
  obtain s where s: "reachable cfg wl s"
    and f: "final (run_workload cfg wl file_list g) = s \<or>
            final (run_workload cfg wl file_list g) = close_workers cfg s"
    using final_run_workload_reachable by blast
  have ww: "worker_writes (io (final (run_workload cfg wl file_list g))) = worker_writes (io s)"
    using f by (auto simp: close_workers_def worker_writes_append worker_writes_closes)
  from rr_inv_reachable[OF s] show ?thesis
    unfolding ww by (simp add: rr_inv_def)
qed

lemma raw_key_more:
  "raw_key ''L keyE\<newline>'' = Some ''keyE''"
  "raw_key ''L keyF\<newline>'' = Some ''keyF''"
  by (simp_all add: raw_key_def str_split_def is_space_def)

lemma three_operations:
  "worker_writes (io (final (run_workload scenario_config WorkloadD
      [scenario_lines, [''L keyD\<newline>'', ''L keyE\<newline>'', ''L keyF\<newline>'']] (\<lambda>_. 0)))) =
     [(0, ''r keyD/\<newline>''), (1, ''r keyE/\<newline>''), (0, ''r keyF/\<newline>'')]"
  by (simp add: run_workload_def scenario_read)
     (simp add: final_def close_workers_def raw_key_scenario raw_key_more process_line_def pad_key_def
      thread_branch_eq emit_op_def generate_op_def scenario_config_def newline_def
      draw_zero worker_writes_append worker_writes_closes)

theorem round_robin_witness:
  "map fst (worker_writes (io (final (run_workload scenario_config WorkloadD
      [scenario_lines, [''L keyD\<newline>'', ''L keyE\<newline>'', ''L keyF\<newline>'']] (\<lambda>_. 0))))) =
     [0 mod NUM_THREADS scenario_config, 1 mod NUM_THREADS scenario_config,
      2 mod NUM_THREADS scenario_config] \<and>
   [0 mod NUM_THREADS scenario_config, 1 mod NUM_THREADS scenario_config,
      2 mod NUM_THREADS scenario_config] = [0, 1, 0]"
proof -
  have len: "length (worker_writes (io (final (run_workload scenario_config WorkloadD
      [scenario_lines, [''L keyD\<newline>'', ''L keyE\<newline>'', ''L keyF\<newline>'']] (\<lambda>_. 0))))) = 3"
    by (simp add: three_operations)
  have upt3: "[0..<3] = [0, 1, 2::nat]"
    by (simp add: upt_rec)
  have m: "[0 mod NUM_THREADS scenario_config, 1 mod NUM_THREADS scenario_config,
      2 mod NUM_THREADS scenario_config] = [0, 1, 0]"
    by (simp add: scenario_config_def)
  from round_robin [of scenario_config WorkloadD
      "[scenario_lines, [''L keyD\<newline>'', ''L keyE\<newline>'', ''L keyF\<newline>'']]" "\<lambda>_. 0"]
  have "map fst (worker_writes (io (final (run_workload scenario_config WorkloadD
      [scenario_lines, [''L keyD\<newline>'', ''L keyE\<newline>'', ''L keyF\<newline>'']] (\<lambda>_. 0))))) =
     [0 mod NUM_THREADS scenario_config, 1 mod NUM_THREADS scenario_config,
      2 mod NUM_THREADS scenario_config]"
    unfolding len upt3 by simp
  with m show ?thesis by blast
qed

section \<open>What a step of the thread phase changes\<close>

lemma emit_op_frame:
  "current_state (rstate (emit_op cfg wl key s)) = current_state s \<and>
   (io (rstate (emit_op cfg wl key s)) = io s \<or>
    (\<exists>j x. io (rstate (emit_op cfg wl key s)) = io s @ [Write (WorkerFile j) x]))"
proof (cases "generate_op wl key s")
  case (Inl e)
  with generate_op_frame[of wl key s] show ?thesis
    by (cases e) (simp add: emit_op_def rstate_def)
next
  case (Inr r)
  obtain op qk s1 where r: "r = ((op, qk), s1)" by (metis prod.exhaust)
  from generate_op_frame[of wl key s] Inr r
  have "io s1 = io s" "current_state s1 = current_state s"
    by (simp_all add: rstate_def)
  then show ?thesis
    by (simp add: emit_op_def Inr r rstate_def)
qed

lemma thread_step:
  assumes "current_state s = Thread"
  shows "current_state (rstate (process_line cfg wl line s)) = Thread \<and>
         (io (rstate (process_line cfg wl line s)) = io s \<or>
          (\<exists>j x. io (rstate (process_line cfg wl line s)) = io s @ [Write (WorkerFile j) x]))"
proof (cases "raw_key line")
  case None
  with assms show ?thesis by (simp add: process_line_skip rstate_def)
next
  case (Some key0)
  let ?key = "pad_key (KEY_LENGTH cfg) key0"
  let ?s1 = "s\<lparr>current_thread := 0, counter := counter s + 1\<rparr>"
  from emit_op_frame[of cfg wl ?key s] emit_op_frame[of cfg wl ?key ?s1] assms Some
  show ?thesis
    by (simp add: process_line_thread thread_branch_eq) (simp add: rstate_def)
qed

lemma read_file_invariant:
  assumes step: "\<And>line s. P s \<Longrightarrow> P (rstate (process_line cfg wl line s))"
  shows "P s \<Longrightarrow> P (final (read_file cfg wl lines s))"
proof (induction lines arbitrary: s)
  case Nil
  then show ?case by (simp add: final_def)
next
  case (Cons line rest)
  have p: "P (rstate (process_line cfg wl line s))"
    using Cons.prems by (rule step)
  show ?case
  proof (cases "process_line cfg wl line s")
    case (Inl e)
    with p show ?thesis by (cases e) (simp add: final_def rstate_def)
  next
    case (Inr r)
    obtain c s1 where r: "r = (c, s1)" by (cases r)
    with Inr p have s1: "P s1" by (simp add: rstate_def)
    show ?thesis
    proof (cases c)
      case Continue
      with Inr r Cons.IH[OF s1] show ?thesis by simp
    next
      case Break
      with Inr r s1 show ?thesis by (simp add: final_def)
    qed
  qed
qed

lemma read_files_invariant:
  assumes step: "\<And>line s. P s \<Longrightarrow> P (rstate (process_line cfg wl line s))"
  shows "P s \<Longrightarrow> P (final (read_files cfg wl fs s))"
proof (induction fs arbitrary: s)
  case Nil
  then show ?case by (simp add: final_def)
next
  case (Cons f fs)
  have p: "P (final (read_file cfg wl f s))"
    using step Cons.prems by (rule read_file_invariant)
  show ?case
  proof (cases "read_file cfg wl f s")
    case (Inl e)
    with p show ?thesis by (cases e) (simp add: final_def)
  next
    case (Inr s1)
    with p have "P s1" by (simp add: final_def)
    from Cons.IH[OF this] Inr show ?thesis by simp
  qed
qed

lemma thread_keeps_load_file:
  assumes "current_state s = Thread \<and> load_file s = L"
  shows "current_state (rstate (process_line cfg wl line s)) = Thread \<and>
         load_file (rstate (process_line cfg wl line s)) = L"
  using thread_step[of s cfg wl line] assms
  by (auto simp: load_file_def written_append)

lemma read_file_thread:
  "current_state s = Thread \<Longrightarrow>
     current_state (final (read_file cfg wl lines s)) = Thread \<and>
     load_file (final (read_file cfg wl lines s)) = load_file s"
  by (rule read_file_invariant
        [where P = "\<lambda>s'. current_state s' = Thread \<and> load_file s' = load_file s"])
     (simp_all add: thread_keeps_load_file)

lemma read_files_thread:
  "current_state s = Thread \<Longrightarrow>
     current_state (final (read_files cfg wl fs s)) = Thread \<and>
     load_file (final (read_files cfg wl fs s)) = load_file s"
  by (rule read_files_invariant
        [where P = "\<lambda>s'. current_state s' = Thread \<and> load_file s' = load_file s"])
     (simp_all add: thread_keeps_load_file)

section \<open>Keys longer than the key width\<close>

text \<open>
  C3, as stated, fails.  The script has no check of the key length: for a key of seven
  characters and a width of five, the loop body returns normally and writes the key to
  the load file as it is, unpadded and untruncated.
\<close>

theorem long_key_not_rejected:
  "process_line scenario_config WorkloadD ''L keyABCD\<newline>'' (init_state (\<lambda>_. 0)) =
     Inr (Continue, (init_state (\<lambda>_. 0))
            \<lparr>counter := 1, inserted_keys := [''keyABCD''], io := [Write LoadFile ''keyABCD\<newline>'']\<rparr>)"
  by (simp add: process_line_def raw_key_def str_split_def is_space_def pad_key_def load_branch_eq
      scenario_config_def init_state_def newline_def)

text \<open>
  C3, amended.  For every raw key longer than \<open>KEY_LENGTH\<close>, key padding does not fail
  and returns the key unchanged, neither padded nor truncated; in the load phase the
  loop body writes that key to the load file and goes on.
\<close>

theorem long_key_unchanged:
  "KEY_LENGTH cfg < length key \<Longrightarrow> raw_key line = Some key \<Longrightarrow>
   current_state s = Load \<Longrightarrow> counter s \<noteq> INIT_KEYS cfg \<Longrightarrow>
     pad_key (KEY_LENGTH cfg) key = key \<and>
     process_line cfg wl line s =
       Inr (Continue, s\<lparr>counter := counter s + 1, inserted_keys := inserted_keys s @ [key],
                         io := io s @ [Write LoadFile (key @ newline)]\<rparr>)"
  by (simp add: process_line_load load_branch_eq pad_key_def)

theorem long_key_unchanged_witness:
  "KEY_LENGTH scenario_config < length ''keyABCD'' \<and>
   raw_key ''L keyABCD\<newline>'' = Some ''keyABCD'' \<and>
   current_state (init_state (\<lambda>_. 0)) = Load \<and>
   counter (init_state (\<lambda>_. 0)) \<noteq> INIT_KEYS scenario_config \<and>
   pad_key (KEY_LENGTH scenario_config) ''keyABCD'' = ''keyABCD'' \<and>
   process_line scenario_config WorkloadE ''L keyABCD\<newline>'' (init_state (\<lambda>_. 0)) =
     Inr (Continue, (init_state (\<lambda>_. 0))
            \<lparr>counter := counter (init_state (\<lambda>_. 0)) + 1,
             inserted_keys := inserted_keys (init_state (\<lambda>_. 0)) @ [''keyABCD''],
             io := io (init_state (\<lambda>_. 0)) @ [Write LoadFile (''keyABCD'' @ newline)]\<rparr>)"
proof -
  have h1: "KEY_LENGTH scenario_config < length ''keyABCD''"
    by (simp add: scenario_config_def)
  have h2: "raw_key ''L keyABCD\<newline>'' = Some ''keyABCD''"
    by (simp add: raw_key_def str_split_def is_space_def)
  have h3: "current_state (init_state (\<lambda>_. 0)) = Load"
    by (simp add: init_state_def)
  have h4: "counter (init_state (\<lambda>_. 0)) \<noteq> INIT_KEYS scenario_config"
    by (simp add: init_state_def scenario_config_def)
  from long_key_unchanged [OF h1 h2 h3 h4, of WorkloadE] h1 h2 h3 h4 show ?thesis
    by blast
qed

section \<open>The operation bound\<close>

lemma raw_key_letters:
  "raw_key ''L a\<newline>'' = Some ''a''"
  "raw_key ''L b\<newline>'' = Some ''b''"
  "raw_key ''L c\<newline>'' = Some ''c''"
  "raw_key ''L d\<newline>'' = Some ''d''"
  "raw_key ''L e\<newline>'' = Some ''e''"
  "raw_key ''L f\<newline>'' = Some ''f''"
  "raw_key ''L g\<newline>'' = Some ''g''"
  by (simp_all add: raw_key_def str_split_def is_space_def)

lemma overrun_first_file:
  "read_file overrun_config WorkloadD (overrun_files ! 0) (init_state (\<lambda>_. 0)) =
     Inr \<lparr>current_state = Thread, counter = 1, current_thread = 0, key_buffer = [],
          inserted_keys = [''a/''],
          io = [Write LoadFile ''a/\<newline>'', Close LoadFile, Write (WorkerFile 0) ''r c/\<newline>''],
          rng = (\<lambda>_. 0)\<rparr>"
  by (simp add: overrun_files_def overrun_config_def init_state_def raw_key_letters newline_def
      process_line_def pad_key_def load_branch_eq thread_branch_eq emit_op_def generate_op_def draw_zero)

text \<open>
  C2 does not hold of the script.  With one worker file and a per-thread target of two
  the bound \<open>NUM_THREADS * PER_THREAD_KEYS\<close> is two operations.  The first file brings
  the round counter to \<open>PER_THREAD_KEYS - 1 = 1\<close> and the loop over its lines is left;
  the script then goes on with the second and the third file and writes one more
  operation from each: three operations in all, two of them generated after the counter
  had reached the bound.
\<close>

theorem overrun_after_bound:
  "counter (final (read_file overrun_config WorkloadD (overrun_files ! 0) (init_state (\<lambda>_. 0)))) = 1 \<and>
   worker_writes (io (final (run_workload overrun_config WorkloadD overrun_files (\<lambda>_. 0)))) =
     [(0, ''r c/\<newline>''), (0, ''r e/\<newline>''), (0, ''r g/\<newline>'')] \<and>
   NUM_THREADS overrun_config * PER_THREAD_KEYS overrun_config = 2"
  by (simp add: run_workload_def overrun_files_def overrun_config_def init_state_def raw_key_letters newline_def
      process_line_def pad_key_def load_branch_eq thread_branch_eq emit_op_def generate_op_def draw_zero
      final_def close_workers_def worker_writes_append)

section \<open>The load file\<close>

lemma accepted_keys_Nil: "accepted_keys cfg [] = []"
  by (simp add: accepted_keys_def map_filter_simps)

lemma accepted_keys_Cons:
  "accepted_keys cfg (line # rest) =
     (case raw_key line of
        None \<Rightarrow> accepted_keys cfg rest
      | Some key0 \<Rightarrow> pad_key (KEY_LENGTH cfg) key0 # accepted_keys cfg rest)"
  by (simp add: accepted_keys_def map_filter_simps split: option.splits)

lemma accepted_keys_append:
  "accepted_keys cfg (xs @ ys) = accepted_keys cfg xs @ accepted_keys cfg ys"
  by (induction xs) (simp_all add: accepted_keys_Nil accepted_keys_Cons split: option.splits)

lemma read_file_load:
  assumes "current_state s = Load" "counter s \<le> INIT_KEYS cfg"
  shows "load_file (final (read_file cfg wl lines s)) =
           load_file s @ map (\<lambda>k. k @ newline)
             (take (INIT_KEYS cfg - counter s) (accepted_keys cfg lines)) \<and>
         (if counter s + length (accepted_keys cfg lines) \<le> INIT_KEYS cfg
          then \<exists>s'. read_file cfg wl lines s = Inr s' \<and> current_state s' = Load \<and>
                 counter s' = counter s + length (accepted_keys cfg lines)
          else current_state (final (read_file cfg wl lines s)) = Thread)"
  using assms
proof (induction lines arbitrary: s)
  case Nil
  then show ?case by (simp add: final_def accepted_keys_Nil)
next
  case (Cons line rest)
  show ?case
  proof (cases "raw_key line")
    case None
    with Cons.IH[OF Cons.prems] show ?thesis
      by (simp add: process_line_skip accepted_keys_Cons)
  next
    case (Some key0)
    let ?key = "pad_key (KEY_LENGTH cfg) key0"
    show ?thesis
    proof (cases "counter s = INIT_KEYS cfg")
      case True
      let ?s1 = "s\<lparr>counter := 0, current_state := Thread, io := io s @ [Close LoadFile]\<rparr>"
      have step: "read_file cfg wl (line # rest) s = read_file cfg wl rest ?s1"
        using Some Cons.prems(1) True by (simp add: process_line_load load_branch_eq)
      have "current_state ?s1 = Thread" by simp
      from read_file_thread[OF this, of cfg wl rest] True Some show ?thesis
        unfolding step by (simp add: accepted_keys_Cons load_file_def written_append)
    next
      case False
      let ?s1 = "s\<lparr>counter := counter s + 1, inserted_keys := inserted_keys s @ [?key],
                    io := io s @ [Write LoadFile (?key @ newline)]\<rparr>"
      have step: "read_file cfg wl (line # rest) s = read_file cfg wl rest ?s1"
        using Some Cons.prems(1) False by (simp add: process_line_load load_branch_eq)
      have s1: "current_state ?s1 = Load" "counter ?s1 \<le> INIT_KEYS cfg"
        using Cons.prems False by simp_all
      have tk: "take (INIT_KEYS cfg - counter s) (?key # accepted_keys cfg rest) =
                  ?key # take (INIT_KEYS cfg - Suc (counter s)) (accepted_keys cfg rest)"
      proof -
        have "INIT_KEYS cfg - counter s = Suc (INIT_KEYS cfg - Suc (counter s))"
          using Cons.prems(2) False by arith
        then show ?thesis by (simp only: take_Suc_Cons)
      qed
      from Cons.IH[OF s1] Some tk show ?thesis
        unfolding step by (auto simp: accepted_keys_Cons load_file_def written_append split: if_splits)
    qed
  qed
qed

lemma read_files_load:
  assumes "current_state s = Load" "counter s \<le> INIT_KEYS cfg"
  shows "load_file (final (read_files cfg wl fs s)) =
           load_file s @ map (\<lambda>k. k @ newline)
             (take (INIT_KEYS cfg - counter s) (accepted_keys cfg (concat fs)))"
  using assms
proof (induction fs arbitrary: s)
  case Nil
  then show ?case by (simp add: final_def accepted_keys_Nil)
next
  case (Cons f fs)
  note rf = read_file_load[OF Cons.prems, of wl f]
  show ?case
  proof (cases "counter s + length (accepted_keys cfg f) \<le> INIT_KEYS cfg")
    case True
    with rf obtain s' where s': "read_file cfg wl f s = Inr s'" "current_state s' = Load"
      "counter s' = counter s + length (accepted_keys cfg f)"
      by auto
    from rf s' True have lf: "load_file s' = load_file s @ map (\<lambda>k. k @ newline) (accepted_keys cfg f)"
      by (simp add: final_def)
    have c: "counter s' \<le> INIT_KEYS cfg" using s' True by simp
    from Cons.IH[OF s'(2) c] s' lf True show ?thesis
      by (simp add: accepted_keys_append)
  next
    case False
    with rf have th: "current_state (final (read_file cfg wl f s)) = Thread"
      and lf: "load_file (final (read_file cfg wl f s)) =
           load_file s @ map (\<lambda>k. k @ newline)
             (take (INIT_KEYS cfg - counter s) (accepted_keys cfg f))"
      by simp_all
    have tk: "take (INIT_KEYS cfg - counter s) (accepted_keys cfg (concat (f # fs))) =
              take (INIT_KEYS cfg - counter s) (accepted_keys cfg f)"
      using False by (simp add: accepted_keys_append)
    show ?thesis
    proof (cases "read_file cfg wl f s")
      case (Inl e)
      with lf tk show ?thesis by (cases e) (simp add: final_def)
    next
      case (Inr s1)
      with th lf have "current_state s1 = Thread" and l1: "load_file s1 =
           load_file s @ map (\<lambda>k. k @ newline)
             (take (INIT_KEYS cfg - counter s) (accepted_keys cfg f))"
        by (simp_all add: final_def)
      from read_files_thread[OF this(1), of cfg wl fs] l1 tk Inr show ?thesis
        by simp
    qed
  qed
qed

lemma close_inv_init: "close_inv (init_state g)"
  by (simp add: close_inv_def init_state_def)

lemma dropWhile_snoc_absent:
  "c \<notin> set xs \<Longrightarrow> dropWhile (\<lambda>e. e \<noteq> c) (xs @ [c]) = [c]"
  by (induction xs) auto

lemma dropWhile_append_present:
  "c \<in> set xs \<Longrightarrow> dropWhile (\<lambda>e. e \<noteq> c) (xs @ ys) = dropWhile (\<lambda>e. e \<noteq> c) xs @ ys"
  by (induction xs) auto

lemma close_inv_step:
  assumes "close_inv s"
  shows "close_inv (rstate (process_line cfg wl line s))"
proof (cases "raw_key line")
  case None
  with assms show ?thesis by (simp add: process_line_skip rstate_def)
next
  case (Some key0)
  show ?thesis
  proof (cases "current_state s")
    case Load
    with Some assms show ?thesis
      by (simp add: process_line_load load_branch_eq rstate_def close_inv_def
          dropWhile_snoc_absent)
  next
    case Thread
    from thread_step[OF Thread, of cfg wl line] Thread assms show ?thesis
      by (auto simp: close_inv_def dropWhile_append_present written_append)
  qed
qed

lemma close_inv_reachable: "reachable cfg wl s \<Longrightarrow> close_inv s"
  by (induction rule: reachable.induct) (simp_all add: close_inv_init close_inv_step)

lemma close_inv_close_workers: "close_inv s \<Longrightarrow> close_inv (close_workers cfg s)"
  by (auto simp: close_inv_def close_workers_def dropWhile_append_present written_append
      written_closes split: if_splits)

lemma close_inv_final: "close_inv (final (run_workload cfg wl file_list g))"
  using final_run_workload_reachable[of cfg wl file_list g]
  by (auto simp: close_inv_reachable close_inv_close_workers)

lemma no_write_after_close:
  assumes "close_inv s" "io s = pre @ Close LoadFile # post"
  shows "written LoadFile post = []"
proof -
  from assms have w: "written LoadFile (dropWhile (\<lambda>e. e \<noteq> Close LoadFile) (pre @ Close LoadFile # post)) = []"
    by (auto simp: close_inv_def split: if_splits)
  show ?thesis
  proof (cases "Close LoadFile \<in> set pre")
    case True
    with w show ?thesis by (simp add: dropWhile_append_present written_append)
  next
    case False
    then have "dropWhile (\<lambda>e. e \<noteq> Close LoadFile) (pre @ Close LoadFile # post) = Close LoadFile # post"
      by (induction pre) auto
    with w show ?thesis by simp
  qed
qed

lemma load_file_final_run:
  "load_file (final (run_workload cfg wl file_list g)) =
     load_file (final (read_files cfg wl file_list (init_state g)))"
  by (simp add: final_run_workload)
     (simp add: final_def load_file_def close_workers_def written_append written_closes
        split: sum.splits prod.splits)

lemma load_file_run_workload:
  "load_file (final (run_workload cfg wl file_list g)) =
     map (\<lambda>k. k @ newline) (take (INIT_KEYS cfg) (accepted_keys cfg (concat file_list)))"
proof -
  have "current_state (init_state g) = Load" "counter (init_state g) \<le> INIT_KEYS cfg"
    by (simp_all add: init_state_def)
  from read_files_load[OF this, of wl file_list] show ?thesis
    by (simp add: load_file_final_run) (simp add: init_state_def load_file_def)
qed

lemma raw_key_long: "raw_key ''L keyABCD\<newline>'' = Some ''keyABCD''"
  by (simp add: raw_key_def str_split_def is_space_def)

text \<open>
  C4, as stated, fails.  The lines of the load file are not all keys of the fixed width:
  with a key width of five, the record \<open>L keyABCD\<close> puts the line \<open>keyABCD\<close> of seven
  characters into the load file.
\<close>

theorem load_file_line_wider_than_key_length:
  "load_file (final (run_workload scenario_config WorkloadD [[''L keyABCD\<newline>'']] (\<lambda>_. 0))) =
     [''keyABCD\<newline>''] \<and>
   KEY_LENGTH scenario_config = 5 \<and> length ''keyABCD'' = 7"
  by (simp add: run_workload_def init_state_def process_line_def raw_key_long pad_key_def
      load_branch_eq scenario_config_def newline_def final_def close_workers_def load_file_def
      written_append written_closes)

text \<open>
  C4, amended.  For every input, workload and generator, and whether the run returns or
  raises, the load file holds one line for each of the first \<open>INIT_KEYS\<close> accepted
  records of the concatenated input, in input order, so it has
  \<open>min INIT_KEYS (number of accepted records)\<close> lines.  Each line is the raw key of its
  record followed by filler up to the key width; a raw key longer than the key width is
  written as it is, so a line has \<open>max KEY_LENGTH (length of the raw key)\<close> characters
  before its line feed.  Nothing is written to the load file after it has been closed at
  the phase transition.
\<close>

theorem load_file_contents:
  "load_file (final (run_workload cfg wl file_list g)) =
     map (\<lambda>k. k @ newline) (take (INIT_KEYS cfg) (accepted_keys cfg (concat file_list))) \<and>
   length (load_file (final (run_workload cfg wl file_list g))) =
     min (INIT_KEYS cfg) (length (accepted_keys cfg (concat file_list))) \<and>
   map length (load_file (final (run_workload cfg wl file_list g))) =
     map (\<lambda>k. max (KEY_LENGTH cfg) (length k) + 1)
       (take (INIT_KEYS cfg) (List.map_filter raw_key (concat file_list))) \<and>
   (\<forall>pre post. io (final (run_workload cfg wl file_list g)) = pre @ Close LoadFile # post \<longrightarrow>
      written LoadFile post = [])"
proof -
  have "length (load_file (final (run_workload cfg wl file_list g))) =
     min (INIT_KEYS cfg) (length (accepted_keys cfg (concat file_list)))"
    by (simp add: load_file_run_workload min.commute)
  moreover have "map length (load_file (final (run_workload cfg wl file_list g))) =
     map (\<lambda>k. max (KEY_LENGTH cfg) (length k) + 1)
       (take (INIT_KEYS cfg) (List.map_filter raw_key (concat file_list)))"
    by (simp add: load_file_run_workload accepted_keys_def take_map pad_key_def newline_def
        max_def)
  ultimately show ?thesis
    using load_file_run_workload[of cfg wl file_list g] no_write_after_close[OF close_inv_final]
    by blast
qed

lemma scenario_run_keyD:
  "io (final (run_workload scenario_config WorkloadD [scenario_lines, [''L keyD\<newline>'']] (\<lambda>_. 0))) =
     [Write LoadFile ''keyA/\<newline>'', Write LoadFile ''keyB/\<newline>''] @ Close LoadFile #
     [Write (WorkerFile 0) ''r keyD/\<newline>'', Close (WorkerFile 0), Close (WorkerFile 1)]"
  by (simp add: run_workload_def scenario_read)
     (simp add: final_def close_workers_def raw_key_scenario process_line_def pad_key_def
      thread_branch_eq emit_op_def generate_op_def scenario_config_def newline_def
      random_random_def rng_rest_def upt_rec)

theorem load_file_contents_witness:
  "load_file (final (run_workload scenario_config WorkloadD [scenario_lines, [''L keyD\<newline>'']] (\<lambda>_. 0))) =
     [''keyA/\<newline>'', ''keyB/\<newline>''] \<and>
   length (load_file (final (run_workload scenario_config WorkloadD [scenario_lines, [''L keyD\<newline>'']] (\<lambda>_. 0)))) = 2 \<and>
   map length (load_file (final (run_workload scenario_config WorkloadD [scenario_lines, [''L keyD\<newline>'']] (\<lambda>_. 0)))) =
     [6, 6] \<and>
   io (final (run_workload scenario_config WorkloadD [scenario_lines, [''L keyD\<newline>'']] (\<lambda>_. 0))) =
     [Write LoadFile ''keyA/\<newline>'', Write LoadFile ''keyB/\<newline>''] @ Close LoadFile #
     [Write (WorkerFile 0) ''r keyD/\<newline>'', Close (WorkerFile 0), Close (WorkerFile 1)] \<and>
   written LoadFile [Write (WorkerFile 0) ''r keyD/\<newline>'', Close (WorkerFile 0), Close (WorkerFile 1)] = []"
proof -
  let ?out = "run_workload scenario_config WorkloadD [scenario_lines, [''L keyD\<newline>'']] (\<lambda>_. 0)"
  have acc: "map (\<lambda>k. k @ newline) (take (INIT_KEYS scenario_config)
               (accepted_keys scenario_config (concat [scenario_lines, [''L keyD\<newline>'']]))) =
             [''keyA/\<newline>'', ''keyB/\<newline>'']"
    by (simp add: accepted_keys_def scenario_lines_def map_filter_simps raw_key_scenario
        scenario_config_def pad_key_def newline_def)
  have len: "min (INIT_KEYS scenario_config)
               (length (accepted_keys scenario_config (concat [scenario_lines, [''L keyD\<newline>'']]))) = 2"
    by (simp add: accepted_keys_def scenario_lines_def map_filter_simps raw_key_scenario
        scenario_config_def)
  have wid: "map (\<lambda>k. max (KEY_LENGTH scenario_config) (length k) + 1)
               (take (INIT_KEYS scenario_config)
                 (List.map_filter raw_key (concat [scenario_lines, [''L keyD\<newline>'']]))) = [6, 6]"
    by (simp add: scenario_lines_def map_filter_simps raw_key_scenario scenario_config_def)
  from load_file_contents[of scenario_config WorkloadD "[scenario_lines, [''L keyD\<newline>'']]" "\<lambda>_. 0"]
  have a: "load_file (final ?out) = map (\<lambda>k. k @ newline) (take (INIT_KEYS scenario_config)
               (accepted_keys scenario_config (concat [scenario_lines, [''L keyD\<newline>'']])))"
    and b: "length (load_file (final ?out)) = min (INIT_KEYS scenario_config)
               (length (accepted_keys scenario_config (concat [scenario_lines, [''L keyD\<newline>'']])))"
    and w: "map length (load_file (final ?out)) =
               map (\<lambda>k. max (KEY_LENGTH scenario_config) (length k) + 1)
                 (take (INIT_KEYS scenario_config)
                   (List.map_filter raw_key (concat [scenario_lines, [''L keyD\<newline>'']])))"
    and c: "\<And>pre post. io (final ?out) = pre @ Close LoadFile # post \<Longrightarrow> written LoadFile post = []"
    by blast+
  from c[OF scenario_run_keyD] a b w show ?thesis
    unfolding acc len wid using scenario_run_keyD by blast
qed

section \<open>The recent-key buffer of workload D\<close>

lemma emit_op_fields:
  "key_buffer (rstate (emit_op cfg wl key s)) = key_buffer (rstate (generate_op wl key s)) \<and>
   inserted_keys (rstate (emit_op cfg wl key s)) = inserted_keys (rstate (generate_op wl key s)) \<and>
   rng (rstate (emit_op cfg wl key s)) = rng (rstate (generate_op wl key s))"
  by (simp add: emit_op_def rstate_def split: sum.splits prod.splits)

lemma generate_op_D_buffer:
  "length (key_buffer s) \<le> 10 \<Longrightarrow>
     length (key_buffer (rstate (generate_op WorkloadD key s))) \<le> 10"
  by (auto simp: generate_op_def rstate_def random_random_def random_randrange_def list_get_def
      Let_def split: sum.splits prod.splits if_splits)

lemma generate_op_D_insert:
  "generate_op WorkloadD key s = Inr ((''i'', k), s') \<Longrightarrow>
     k = key \<and>
     key_buffer s' =
       (if length (key_buffer s) = 10 then tl (key_buffer s) else key_buffer s) @ [key]"
  by (auto simp: generate_op_def random_random_def random_randrange_def list_get_def
      Let_def split: sum.splits prod.splits if_splits)

lemma key_buffer_step:
  assumes "length (key_buffer s) \<le> 10"
  shows "length (key_buffer (rstate (process_line cfg WorkloadD line s))) \<le> 10"
proof (cases "raw_key line")
  case None
  with assms show ?thesis by (simp add: process_line_skip rstate_def)
next
  case (Some key0)
  show ?thesis
  proof (cases "current_state s")
    case Load
    with Some assms show ?thesis
      by (simp add: process_line_load load_branch_eq rstate_def)
  next
    case Thread
    let ?key = "pad_key (KEY_LENGTH cfg) key0"
    let ?s1 = "s\<lparr>current_thread := 0, counter := counter s + 1\<rparr>"
    have "length (key_buffer ?s1) \<le> 10" using assms by simp
    from generate_op_D_buffer[OF this, of ?key] generate_op_D_buffer[OF assms, of ?key]
      Thread Some assms
    show ?thesis
      by (simp add: process_line_thread thread_branch_eq emit_op_fields) (simp add: rstate_def)
  qed
qed

lemma key_buffer_reachable: "reachable cfg WorkloadD s \<Longrightarrow> length (key_buffer s) \<le> 10"
  by (induction rule: reachable.induct) (simp_all add: key_buffer_step, simp add: init_state_def)

text \<open>
  C6.  In workload D the recent-key buffer holds at most ten entries in every state the
  run passes through (so also at every point after the phase transition), and an insert
  operation generated while the buffer holds ten entries drops the oldest entry and
  appends the inserted key, which leaves ten entries.
\<close>

theorem recent_key_buffer_bound:
  assumes "reachable cfg WorkloadD s"
  shows "length (key_buffer s) \<le> 10 \<and>
         (\<forall>key k s'. generate_op WorkloadD key s = Inr ((''i'', k), s') \<and>
                      length (key_buffer s) = 10 \<longrightarrow>
                      k = key \<and> key_buffer s' = tl (key_buffer s) @ [key] \<and>
                      length (key_buffer s') = 10)"
proof -
  have b: "length (key_buffer s) \<le> 10"
    using assms by (rule key_buffer_reachable)
  have "k = key \<and> key_buffer s' = tl (key_buffer s) @ [key] \<and> length (key_buffer s') = 10"
    if "generate_op WorkloadD key s = Inr ((''i'', k), s')" "length (key_buffer s) = 10"
    for key k s'
    using generate_op_D_insert[OF that(1)] that(2) by simp
  with b show ?thesis by blast
qed

lemma raw_key_buffer_lines:
  "raw_key ''L t\<newline>'' = Some ''t''"
  "raw_key ''L a\<newline>'' = Some ''a''"
  "raw_key ''L b\<newline>'' = Some ''b''"
  "raw_key ''L c\<newline>'' = Some ''c''"
  "raw_key ''L d\<newline>'' = Some ''d''"
  "raw_key ''L e\<newline>'' = Some ''e''"
  "raw_key ''L f\<newline>'' = Some ''f''"
  "raw_key ''L g\<newline>'' = Some ''g''"
  "raw_key ''L h\<newline>'' = Some ''h''"
  "raw_key ''L i\<newline>'' = Some ''i''"
  "raw_key ''L j\<newline>'' = Some ''j''"
  by (simp_all add: raw_key_def str_split_def is_space_def)

lemma draw_always_insert: "random_random always_insert = (real (2 ^ 53 - 1) / 2 ^ 53, always_insert)"
  by (simp add: random_random_def always_insert_def rng_rest_def)

lemma buffer_full_state:
  "final (read_file buffer_config WorkloadD buffer_lines (init_state always_insert)) =
     \<lparr>current_state = Thread, counter = 0, current_thread = 10,
      key_buffer = [''a/'', ''b/'', ''c/'', ''d/'', ''e/'', ''f/'', ''g/'', ''h/'', ''i/'', ''j/''],
      inserted_keys = [],
      io = [Close LoadFile,
            Write (WorkerFile 0) ''i a/\<newline>'', Write (WorkerFile 1) ''i b/\<newline>'',
            Write (WorkerFile 2) ''i c/\<newline>'', Write (WorkerFile 3) ''i d/\<newline>'',
            Write (WorkerFile 4) ''i e/\<newline>'', Write (WorkerFile 5) ''i f/\<newline>'',
            Write (WorkerFile 6) ''i g/\<newline>'', Write (WorkerFile 7) ''i h/\<newline>'',
            Write (WorkerFile 8) ''i i/\<newline>'', Write (WorkerFile 9) ''i j/\<newline>''],
      rng = always_insert\<rparr>"
  by (simp add: buffer_lines_def buffer_config_def init_state_def raw_key_buffer_lines newline_def
      process_line_def pad_key_def load_branch_eq thread_branch_eq emit_op_def generate_op_def
      draw_always_insert final_def)


theorem recent_key_buffer_bound_witness:
  "reachable buffer_config WorkloadD
     (final (read_file buffer_config WorkloadD buffer_lines (init_state always_insert))) \<and>
   length (key_buffer
     (final (read_file buffer_config WorkloadD buffer_lines (init_state always_insert)))) = 10 \<and>
   generate_op WorkloadD ''k/''
     (final (read_file buffer_config WorkloadD buffer_lines (init_state always_insert))) =
     Inr ((''i'', ''k/''),
          (final (read_file buffer_config WorkloadD buffer_lines (init_state always_insert)))
            \<lparr>key_buffer := [''b/'', ''c/'', ''d/'', ''e/'', ''f/'', ''g/'', ''h/'', ''i/'', ''j/'', ''k/'']\<rparr>) \<and>
   length (key_buffer
     ((final (read_file buffer_config WorkloadD buffer_lines (init_state always_insert)))
        \<lparr>key_buffer := [''b/'', ''c/'', ''d/'', ''e/'', ''f/'', ''g/'', ''h/'', ''i/'', ''j/'', ''k/'']\<rparr>)) = 10"
proof -
  let ?s = "final (read_file buffer_config WorkloadD buffer_lines (init_state always_insert))"
  let ?s' = "?s\<lparr>key_buffer := [''b/'', ''c/'', ''d/'', ''e/'', ''f/'', ''g/'', ''h/'', ''i/'', ''j/'', ''k/'']\<rparr>"
  have r: "reachable buffer_config WorkloadD ?s"
    by (rule reachable_read_file) (rule reachable_init)
  have l: "length (key_buffer ?s) = 10"
    by (simp add: buffer_full_state)
  have g: "generate_op WorkloadD ''k/'' ?s = Inr ((''i'', ''k/''), ?s')"
    by (simp add: buffer_full_state generate_op_def draw_always_insert)
  from recent_key_buffer_bound [OF r] g l
  have "length (key_buffer ?s') = 10" by blast
  with r l g show ?thesis by blast
qed

section \<open>Scan targets of workload E\<close>

lemma inserted_in_append: "inserted_in k evs \<Longrightarrow> inserted_in k (evs @ evs')"
  by (auto simp: inserted_in_def)

lemma scans_ok_Nil: "scans_ok []"
  by (simp add: scans_ok_def)

lemma scans_ok_snoc:
  assumes "scans_ok evs"
    and "\<And>j k. e = Write (WorkerFile j) (''s'' @ '' '' @ k @ newline) \<Longrightarrow> inserted_in k evs"
  shows "scans_ok (evs @ [e])"
  unfolding scans_ok_def
proof (intro allI impI)
  fix pre j k post
  assume eq: "evs @ [e] = pre @ Write (WorkerFile j) (''s'' @ '' '' @ k @ newline) # post"
  show "inserted_in k pre"
  proof (cases post rule: rev_cases)
    case Nil
    with eq have "pre = evs" "e = Write (WorkerFile j) (''s'' @ '' '' @ k @ newline)"
      by simp_all
    with assms(2) show ?thesis by simp
  next
    case (snoc post' x)
    with eq have "evs = pre @ Write (WorkerFile j) (''s'' @ '' '' @ k @ newline) # post'"
      by (metis append_Cons append_assoc butlast_snoc)
    with assms(1) show ?thesis by (auto simp: scans_ok_def)
  qed
qed

lemma scans_ok_closes: "scans_ok evs \<Longrightarrow> scans_ok (evs @ map (\<lambda>i. Close (f i)) ns)"
proof (induction ns rule: rev_induct)
  case Nil
  then show ?case by simp
next
  case (snoc n ns)
  from snoc.IH[OF snoc.prems] have "scans_ok ((evs @ map (\<lambda>i. Close (f i)) ns) @ [Close (f n)])"
    by (rule scans_ok_snoc) simp
  then show ?case by simp
qed

lemma generate_op_E_cases:
  "(inserted_keys s = [] \<and>
      generate_op WorkloadE key s = Inl (ValueError, s\<lparr>rng := rng_rest (rng s)\<rparr>)) \<or>
   (inserted_keys s \<noteq> [] \<and>
      generate_op WorkloadE key s =
        Inr ((''s'', inserted_keys s ! (rng_rest (rng s) 0 mod length (inserted_keys s))),
             s\<lparr>rng := rng_rest (rng_rest (rng s))\<rparr>)) \<or>
   generate_op WorkloadE key s =
     Inr ((''i'', key), s\<lparr>rng := rng_rest (rng s), inserted_keys := inserted_keys s @ [key]\<rparr>)"
  by (auto simp: generate_op_def random_random_def random_randrange_def list_get_def Let_def)

lemma scan_inv_emit_op:
  assumes "scan_inv s" "current_thread s < NUM_THREADS cfg"
  shows "scan_inv (rstate (emit_op cfg WorkloadE key s))"
proof -
  consider
    (raise) "generate_op WorkloadE key s = Inl (ValueError, s\<lparr>rng := rng_rest (rng s)\<rparr>)"
  | (scan) i where "i < length (inserted_keys s)"
      "generate_op WorkloadE key s =
        Inr ((''s'', inserted_keys s ! i), s\<lparr>rng := rng_rest (rng_rest (rng s))\<rparr>)"
  | (ins) "generate_op WorkloadE key s =
     Inr ((''i'', key), s\<lparr>rng := rng_rest (rng s), inserted_keys := inserted_keys s @ [key]\<rparr>)"
  proof -
    have "rng_rest (rng s) 0 mod length (inserted_keys s) < length (inserted_keys s)"
      if "inserted_keys s \<noteq> []"
      using that by simp
    with generate_op_E_cases[of s key] that show ?thesis by blast
  qed
  then show ?thesis
  proof cases
    case raise
    with assms show ?thesis by (simp add: emit_op_def rstate_def scan_inv_def)
  next
    case scan
    from scan(1) assms(1) have seen: "inserted_in (inserted_keys s ! i) (io s)"
      by (simp add: scan_inv_def)
    have "scans_ok (io s @ [Write (WorkerFile (current_thread s))
            (''s'' @ '' '' @ inserted_keys s ! i @ newline)])"
      by (rule scans_ok_snoc) (use assms(1) seen in \<open>auto simp: scan_inv_def\<close>)
    with assms scan(2) show ?thesis
      by (simp add: emit_op_def rstate_def scan_inv_def inserted_in_append)
  next
    case ins
    have "scans_ok (io s @ [Write (WorkerFile (current_thread s)) (''i'' @ '' '' @ key @ newline)])"
      by (rule scans_ok_snoc) (use assms(1) in \<open>auto simp: scan_inv_def\<close>)
    moreover have "inserted_in key
        (io s @ [Write (WorkerFile (current_thread s)) (''i'' @ '' '' @ key @ newline)])"
      by (auto simp: inserted_in_def)
    ultimately show ?thesis using assms ins
      by (simp add: emit_op_def rstate_def scan_inv_def inserted_in_append)
  qed
qed

lemma scan_inv_step:
  assumes "scan_inv s" "rr_inv cfg s" "0 < NUM_THREADS cfg"
  shows "scan_inv (rstate (process_line cfg WorkloadE line s))"
proof (cases "raw_key line")
  case None
  with assms show ?thesis by (simp add: process_line_skip rstate_def)
next
  case (Some key0)
  let ?key = "pad_key (KEY_LENGTH cfg) key0"
  show ?thesis
  proof (cases "current_state s")
    case Load
    have "scans_ok (io s @ [Close LoadFile])"
      by (rule scans_ok_snoc) (use assms(1) in \<open>auto simp: scan_inv_def\<close>)
    moreover have "scans_ok (io s @ [Write LoadFile (?key @ newline)])"
      by (rule scans_ok_snoc) (use assms(1) in \<open>auto simp: scan_inv_def\<close>)
    moreover have "inserted_in ?key (io s @ [Write LoadFile (?key @ newline)])"
      by (simp add: inserted_in_def)
    ultimately show ?thesis using Load Some assms(1)
      by (simp add: process_line_load load_branch_eq rstate_def scan_inv_def inserted_in_append)
  next
    case Thread
    let ?s1 = "s\<lparr>current_thread := 0, counter := counter s + 1\<rparr>"
    have s1: "scan_inv ?s1" using assms(1) by (simp add: scan_inv_def)
    have e1: "scan_inv (rstate (emit_op cfg WorkloadE ?key ?s1))"
      using s1 assms(3) by (intro scan_inv_emit_op) simp_all
    have e0: "scan_inv (rstate (emit_op cfg WorkloadE ?key s))" if "current_thread s \<noteq> NUM_THREADS cfg"
      using assms(1,2) that by (intro scan_inv_emit_op) (simp_all add: rr_inv_def)
    from Thread Some s1 e1 e0 show ?thesis
      by (simp add: process_line_thread thread_branch_eq) (simp add: rstate_def)
  qed
qed

lemma scan_inv_reachable:
  "reachable cfg WorkloadE s \<Longrightarrow> 0 < NUM_THREADS cfg \<Longrightarrow> scan_inv s"
proof (induction rule: reachable.induct)
  case (reachable_init g)
  show ?case by (simp add: scan_inv_def init_state_def scans_ok_Nil)
next
  case (reachable_step s line)
  then show ?case by (simp add: scan_inv_step rr_inv_reachable)
qed

lemma no_worker_writes:
  assumes "rr_inv cfg s" "NUM_THREADS cfg = 0"
  shows "worker_writes (io s) = []"
  using assms by (auto simp: rr_inv_def)

lemma scans_ok_final: "scans_ok (io (final (run_workload cfg WorkloadE file_list g)))"
proof -
  obtain s where s: "reachable cfg WorkloadE s"
    and f: "final (run_workload cfg WorkloadE file_list g) = s \<or>
            final (run_workload cfg WorkloadE file_list g) = close_workers cfg s"
    using final_run_workload_reachable by blast
  show ?thesis
  proof (cases "NUM_THREADS cfg = 0")
    case True
    from no_worker_writes[OF rr_inv_reachable[OF s] True] f
    have "worker_writes (io (final (run_workload cfg WorkloadE file_list g))) = []"
      by (auto simp: close_workers_def worker_writes_append worker_writes_closes)
    then show ?thesis
      by (auto simp: scans_ok_def worker_writes_append)
  next
    case False
    with scan_inv_reachable[OF s] have "scans_ok (io s)" by (simp add: scan_inv_def)
    with f show ?thesis by (auto simp: close_workers_def scans_ok_closes)
  qed
qed

text \<open>
  C7.  In every run of workload E, whether it returns or raises, each \<open>s\<close> operation in
  a worker file is on a key that was inserted earlier in the run: its line was written to
  the load file, or an \<open>i\<close> operation on it was written to a worker file, before the
  scan was written.
\<close>

theorem scan_targets_inserted:
  assumes "io (final (run_workload cfg WorkloadE file_list g)) =
             pre @ Write (WorkerFile j) (''s'' @ '' '' @ k @ newline) # post"
  shows "inserted_in k pre"
  using scans_ok_final[of cfg file_list g] assms unfolding scans_ok_def by blast

theorem scan_targets_inserted_witness:
  "io (final (run_workload scenario_config WorkloadE [scenario_lines, [''L keyD\<newline>'']] (\<lambda>_. 0))) =
     [Write LoadFile ''keyA/\<newline>'', Write LoadFile ''keyB/\<newline>'', Close LoadFile] @
     Write (WorkerFile 0) (''s'' @ '' '' @ ''keyA/'' @ newline) #
     [Close (WorkerFile 0), Close (WorkerFile 1)] \<and>
   inserted_in ''keyA/'' [Write LoadFile ''keyA/\<newline>'', Write LoadFile ''keyB/\<newline>'', Close LoadFile]"
proof -
  have run: "io (final (run_workload scenario_config WorkloadE [scenario_lines, [''L keyD\<newline>'']] (\<lambda>_. 0))) =
     [Write LoadFile ''keyA/\<newline>'', Write LoadFile ''keyB/\<newline>'', Close LoadFile] @
     Write (WorkerFile 0) (''s'' @ '' '' @ ''keyA/'' @ newline) #
     [Close (WorkerFile 0), Close (WorkerFile 1)]"
    by (simp add: run_workload_def scenario_read)
       (simp add: final_def close_workers_def raw_key_scenario process_line_def pad_key_def
        thread_branch_eq emit_op_def generate_op_def scenario_config_def newline_def
        random_random_def random_randrange_def list_get_def rng_rest_def upt_rec)
  from scan_targets_inserted [OF run] run show ?thesis by blast
qed

section \<open>Scanning an empty key set\<close>

lemma generate_op_inserted_mono:
  "length (inserted_keys s) \<le> length (inserted_keys (rstate (generate_op wl key s)))"
  by (auto simp: generate_op_def rstate_def random_random_def random_randrange_def list_get_def
      Let_def split: workload.splits)

lemma ik_inv_step:
  assumes "ik_inv cfg s"
  shows "ik_inv cfg (rstate (process_line cfg wl line s))"
proof (cases "raw_key line")
  case None
  with assms show ?thesis by (simp add: process_line_skip rstate_def)
next
  case (Some key0)
  show ?thesis
  proof (cases "current_state s")
    case Load
    with Some assms show ?thesis
      by (simp add: process_line_load load_branch_eq rstate_def ik_inv_def)
  next
    case Thread
    let ?key = "pad_key (KEY_LENGTH cfg) key0"
    let ?s1 = "s\<lparr>current_thread := 0, counter := counter s + 1\<rparr>"
    let ?r = "rstate (process_line cfg wl line s)"
    have "inserted_keys ?r = inserted_keys s \<or>
          inserted_keys ?r = inserted_keys (rstate (generate_op wl ?key s)) \<or>
          inserted_keys ?r = inserted_keys (rstate (generate_op wl ?key ?s1))"
      using Thread Some
      by (simp add: process_line_thread thread_branch_eq emit_op_fields) (simp add: rstate_def)
    with generate_op_inserted_mono[of s wl ?key] generate_op_inserted_mono[of ?s1 wl ?key]
    have "length (inserted_keys s) \<le> length (inserted_keys ?r)"
      by auto
    with thread_step[OF Thread, of cfg wl line] Thread assms show ?thesis
      by (simp add: ik_inv_def)
  qed
qed

lemma ik_inv_reachable: "reachable cfg wl s \<Longrightarrow> ik_inv cfg s"
  by (induction rule: reachable.induct) (simp_all add: ik_inv_step, simp add: ik_inv_def init_state_def)

lemma emit_op_ValueError:
  "emit_op cfg WorkloadE key s = Inl (ValueError, s') \<Longrightarrow> inserted_keys s = []"
  using generate_op_E_cases[of s key]
  by (auto simp: emit_op_def split: if_splits)

lemma process_line_ValueError:
  assumes "ik_inv cfg s" "process_line cfg WorkloadE line s = Inl (ValueError, s')"
  shows "INIT_KEYS cfg = 0"
proof (cases "raw_key line")
  case None
  with assms show ?thesis by (simp add: process_line_skip)
next
  case (Some key0)
  show ?thesis
  proof (cases "current_state s")
    case Load
    with Some assms show ?thesis
      by (simp add: process_line_load load_branch_eq split: if_splits)
  next
    case Thread
    with Some assms(2) have "inserted_keys s = []"
      by (auto simp: process_line_thread thread_branch_eq split: if_splits
          dest: emit_op_ValueError)
    with Thread assms(1) show ?thesis by (simp add: ik_inv_def)
  qed
qed

lemma read_file_raise:
  assumes inv: "\<And>line s. P s \<Longrightarrow> P (rstate (process_line cfg wl line s))"
    and raise: "\<And>line s e s'. P s \<Longrightarrow> process_line cfg wl line s = Inl (e, s') \<Longrightarrow> R e"
  shows "P s \<Longrightarrow> read_file cfg wl lines s = Inl (e, s') \<Longrightarrow> R e"
proof (induction lines arbitrary: s)
  case Nil
  then show ?case by simp
next
  case (Cons line rest)
  show ?case
  proof (cases "process_line cfg wl line s")
    case (Inl x)
    with Cons.prems raise[of s line e s'] show ?thesis by simp
  next
    case (Inr r)
    obtain c s1 where r: "r = (c, s1)" by (cases r)
    from inv[OF Cons.prems(1), of line] Inr r have "P s1" by (simp add: rstate_def)
    with Cons.IH[of s1] Cons.prems(2) Inr r show ?thesis
      by (cases c) simp_all
  qed
qed

lemma read_files_raise:
  assumes inv: "\<And>line s. P s \<Longrightarrow> P (rstate (process_line cfg wl line s))"
    and raise: "\<And>line s e s'. P s \<Longrightarrow> process_line cfg wl line s = Inl (e, s') \<Longrightarrow> R e"
  shows "P s \<Longrightarrow> read_files cfg wl fs s = Inl (e, s') \<Longrightarrow> R e"
proof (induction fs arbitrary: s)
  case Nil
  then show ?case by simp
next
  case (Cons f fs)
  show ?case
  proof (cases "read_file cfg wl f s")
    case (Inl x)
    with Cons.prems(2) have "read_file cfg wl f s = Inl (e, s')" by simp
    with inv raise Cons.prems(1) show ?thesis by (rule read_file_raise)
  next
    case (Inr s1)
    from read_file_invariant[of P cfg wl, OF inv Cons.prems(1), of f] Inr have "P s1"
      by (simp add: final_def)
    with Cons.IH[of s1] Cons.prems(2) Inr show ?thesis by simp
  qed
qed

lemma run_workload_ValueError:
  assumes "run_workload cfg WorkloadE file_list g = Inl (ValueError, s')"
  shows "INIT_KEYS cfg = 0"
proof -
  from assms have rf: "read_files cfg WorkloadE file_list (init_state g) = Inl (ValueError, s')"
    by (simp add: run_workload_def split: sum.splits)
  have i: "ik_inv cfg (init_state g)" by (simp add: ik_inv_def init_state_def)
  show ?thesis
    by (rule read_files_raise[where P = "ik_inv cfg" and R = "\<lambda>e. e = ValueError \<longrightarrow> INIT_KEYS cfg = 0"
          and e = ValueError, OF _ _ i rf, rule_format])
       (auto simp: ik_inv_step dest: process_line_ValueError)
qed

text \<open>
  C10, as stated, fails.  With \<open>INIT_KEYS = 0\<close> the first accepted record is handled in the
  load phase: the load branch counts it, switches the phase and registers nothing.  The
  second accepted record reaches \<open>generate_op\<close> with empty \<open>inserted_keys\<close>, and with a
  drawn fraction below 0.9 the run of workload E ends in \<open>ValueError\<close>, although an
  accepted record was processed during the load phase.
\<close>

theorem scan_raises_after_empty_load_phase:
  "current_state (init_state (\<lambda>_. 0)) = Load \<and>
   process_line buffer_config WorkloadE ''L t\<newline>'' (init_state (\<lambda>_. 0)) =
     Inr (Continue, (init_state (\<lambda>_. 0))\<lparr>current_state := Thread, io := [Close LoadFile]\<rparr>) \<and>
   run_workload buffer_config WorkloadE [[''L t\<newline>'', ''L a\<newline>'']] (\<lambda>_. 0) =
     Inl (ValueError, (init_state (\<lambda>_. 0))\<lparr>current_state := Thread, io := [Close LoadFile]\<rparr>)"
  by (simp add: run_workload_def buffer_config_def init_state_def raw_key_buffer_lines
      process_line_def pad_key_def load_branch_eq thread_branch_eq emit_op_def generate_op_def
      random_random_def random_randrange_def rng_rest_def)

text \<open>
  C10, amended.  In workload E, a call of \<open>generate_op\<close> with empty \<open>inserted_keys\<close> and a
  drawn fraction below 0.9 raises \<open>ValueError\<close> (\<open>randrange(0, 0)\<close>).  Under the
  precondition that the load phase registers at least one key, that is that \<open>INIT_KEYS\<close>
  is positive, or, what implies it, that the load file of the run is not empty, no run
  raises this error, because \<open>inserted_keys\<close> is not empty in any state of the thread
  phase.
\<close>

theorem scan_on_empty_set:
  "(inserted_keys s = [] \<and> fst (random_random (rng s)) < 9 / 10 \<longrightarrow>
      generate_op WorkloadE key s = Inl (ValueError, s\<lparr>rng := rng_rest (rng s)\<rparr>)) \<and>
   (0 < INIT_KEYS cfg \<or> load_file (final (run_workload cfg WorkloadE file_list g)) \<noteq> [] \<longrightarrow>
      (\<forall>s'. run_workload cfg WorkloadE file_list g \<noteq> Inl (ValueError, s')) \<and>
      (\<forall>s'. reachable cfg WorkloadE s' \<and> current_state s' = Thread \<longrightarrow> inserted_keys s' \<noteq> []))"
proof (intro conjI impI)
  assume "inserted_keys s = [] \<and> fst (random_random (rng s)) < 9 / 10"
  then show "generate_op WorkloadE key s = Inl (ValueError, s\<lparr>rng := rng_rest (rng s)\<rparr>)"
    by (simp add: generate_op_def random_random_def random_randrange_def split_beta)
next
  assume "0 < INIT_KEYS cfg \<or> load_file (final (run_workload cfg WorkloadE file_list g)) \<noteq> []"
  then have pos: "0 < INIT_KEYS cfg"
    by (auto simp: load_file_run_workload)
  then show "\<forall>s'. run_workload cfg WorkloadE file_list g \<noteq> Inl (ValueError, s')"
    using run_workload_ValueError[of cfg file_list g] by auto
  show "\<forall>s'. reachable cfg WorkloadE s' \<and> current_state s' = Thread \<longrightarrow> inserted_keys s' \<noteq> []"
    using pos ik_inv_reachable[of cfg WorkloadE] by (fastforce simp: ik_inv_def)
qed

theorem scan_on_empty_set_witness:
  "inserted_keys (init_state (\<lambda>_. 0)) = [] \<and>
   fst (random_random (rng (init_state (\<lambda>_. 0)))) < 9 / 10 \<and>
   generate_op WorkloadE ''keyD/'' (init_state (\<lambda>_. 0)) =
     Inl (ValueError, (init_state (\<lambda>_. 0))\<lparr>rng := rng_rest (rng (init_state (\<lambda>_. 0)))\<rparr>) \<and>
   0 < INIT_KEYS scenario_config \<and>
   (\<forall>s'. run_workload scenario_config WorkloadE [scenario_lines, [''L keyD\<newline>'']] (\<lambda>_. 0) \<noteq>
          Inl (ValueError, s')) \<and>
   reachable scenario_config WorkloadE
     (final (read_file scenario_config WorkloadE scenario_lines (init_state (\<lambda>_. 0)))) \<and>
   current_state
     (final (read_file scenario_config WorkloadE scenario_lines (init_state (\<lambda>_. 0)))) = Thread \<and>
   inserted_keys
     (final (read_file scenario_config WorkloadE scenario_lines (init_state (\<lambda>_. 0)))) \<noteq> []"
proof -
  let ?i = "init_state (\<lambda>_. 0)"
  let ?s = "final (read_file scenario_config WorkloadE scenario_lines ?i)"
  have e: "inserted_keys ?i = [] \<and> fst (random_random (rng ?i)) < 9 / 10"
    by (simp add: init_state_def random_random_def)
  have p: "0 < INIT_KEYS scenario_config"
    by (simp add: scenario_config_def)
  have r: "reachable scenario_config WorkloadE ?s"
    by (rule reachable_read_file) (rule reachable_init)
  have t: "current_state ?s = Thread"
    by (simp add: scenario_read final_def)
  note inst = scan_on_empty_set [of ?i "''keyD/''" scenario_config
      "[scenario_lines, [''L keyD\<newline>'']]" "\<lambda>_. 0"]
  from inst e have 1: "generate_op WorkloadE ''keyD/'' ?i =
      Inl (ValueError, ?i\<lparr>rng := rng_rest (rng ?i)\<rparr>)"
    by blast
  from inst p have 2: "\<forall>s'. run_workload scenario_config WorkloadE
      [scenario_lines, [''L keyD\<newline>'']] (\<lambda>_. 0) \<noteq> Inl (ValueError, s')"
    by blast
  from inst p r t have 3: "inserted_keys ?s \<noteq> []"
    by blast
  from e p r t 1 2 3 show ?thesis by blast
qed

end
